theory Spec2Isabelle
  imports Main
begin

section \<open>Time values\<close>

text \<open>
  A Go \<open>time.Time\<close> is a struct of a wall-clock encoding, an optional monotonic clock
  reading and a pointer to a location. It is modelled by the instant it denotes, in
  nanoseconds since the Unix epoch, the monotonic reading if it carries one, and the
  address of its location, so that comparing two times with \<open>==\<close> or \<open>!=\<close>, as
  \<open>Alert.Equal\<close> does, is comparing the three fields. A \<open>time.Duration\<close> is a number of
  nanoseconds.
\<close>

type_synonym Location = nat

record Time =
  instant :: int
  monotonic :: "int option"
  loc :: Location

type_synonym Duration = int

text \<open>
  The location pointer of a time in UTC is nil; \<open>time.Now()\<close> returns a time in the
  local location with a monotonic reading. The JSON decoder returns a time without
  monotonic reading: in UTC for the suffix \<open>Z\<close>, and for a numeric offset that is
  neither the local one nor a whole number of hours in a location it allocates for
  this one value.
\<close>

definition utcLoc :: Location where
  "utcLoc = 0"

definition localLoc :: Location where
  "localLoc = 1"

definition UTC :: "int \<Rightarrow> Time" where
  "UTC ns = \<lparr>instant = ns, monotonic = None, loc = utcLoc\<rparr>"

definition Now :: "int \<Rightarrow> int \<Rightarrow> Time" where
  "Now wall m = \<lparr>instant = wall, monotonic = Some m, loc = localLoc\<rparr>"

text \<open>The zero value \<open>time.Time{}\<close>: midnight of 1 January of year 1, UTC.\<close>

definition zeroTime :: Time where
  "zeroTime = UTC (- 62135596800000000000)"

text \<open>
  \<open>UnixMilli\<close> is \<open>t.unixSec()*1e3 + int64(t.nsec())/1e6\<close> in 64-bit signed
  arithmetic, which wraps around.
\<close>

definition int64 :: "int \<Rightarrow> int" where
  "int64 x = (x + 2 ^ 63) mod 2 ^ 64 - 2 ^ 63"

definition unixSec :: "Time \<Rightarrow> int" where
  "unixSec t = instant t div 1000000000"

definition nsec :: "Time \<Rightarrow> int" where
  "nsec t = instant t mod 1000000000"

definition UnixMilli :: "Time \<Rightarrow> int" where
  "UnixMilli t = int64 (int64 (unixSec t * 1000) + nsec t div 1000000)"

text \<open>
  \<open>Sub\<close>: the difference of the monotonic readings when both times carry one, of the
  instants otherwise; in both cases clamped to the range of a duration. \<open>elapsed\<close> is
  that difference before clamping. \<open>Since now t\<close> is \<open>time.Since(t)\<close> when
  \<open>time.Now()\<close> returns \<open>now\<close>.
\<close>

definition maxDuration :: Duration where
  "maxDuration = 2 ^ 63 - 1"

definition minDuration :: Duration where
  "minDuration = - (2 ^ 63)"

definition saturate :: "int \<Rightarrow> Duration" where
  "saturate d =
     (if maxDuration < d then maxDuration
      else if d < minDuration then minDuration
      else d)"

definition elapsed :: "Time \<Rightarrow> Time \<Rightarrow> int" where
  "elapsed t u =
     (case monotonic t of
        Some m \<Rightarrow> (case monotonic u of Some n \<Rightarrow> m - n | None \<Rightarrow> instant t - instant u)
      | None \<Rightarrow> instant t - instant u)"

definition Sub :: "Time \<Rightarrow> Time \<Rightarrow> Duration" where
  "Sub t u =
     (case monotonic t of
        Some m \<Rightarrow>
          (case monotonic u of Some n \<Rightarrow> saturate (m - n) | None \<Rightarrow> saturate (instant t - instant u))
      | None \<Rightarrow> saturate (instant t - instant u))"

definition Since :: "Time \<Rightarrow> Time \<Rightarrow> Duration" where
  "Since now t = Sub now t"

section \<open>Decimal formatting (the \<open>%d\<close> verb of \<open>fmt.Sprintf\<close>)\<close>

definition digit_char :: "nat \<Rightarrow> char" where
  "digit_char d = char_of (48 + d)"

fun decimal_nat :: "nat \<Rightarrow> string" where
  "decimal_nat n =
     (if n < 10 then [digit_char n]
      else decimal_nat (n div 10) @ [digit_char (n mod 10)])"

declare decimal_nat.simps [simp del]

definition decimal :: "int \<Rightarrow> string" where
  "decimal i =
     (if i < 0 then CHR ''-'' # decimal_nat (nat (- i)) else decimal_nat (nat i))"

text \<open>Reading a decimal numeral back, used to show that formatting loses nothing.\<close>

definition digit_val :: "char \<Rightarrow> nat" where
  "digit_val c = of_char c - 48"

definition undecimal_nat :: "string \<Rightarrow> nat" where
  "undecimal_nat s = foldl (\<lambda>acc c. 10 * acc + digit_val c) 0 s"

definition undecimal :: "string \<Rightarrow> int" where
  "undecimal s =
     (case s of
        [] \<Rightarrow> 0
      | c # cs \<Rightarrow> if c = CHR ''-'' then - int (undecimal_nat cs) else int (undecimal_nat s))"

section \<open>Alert records (pkg/alert/alert.go)\<close>

definition Firing :: string where
  "Firing = ''firing''"

definition Resolved :: string where
  "Resolved = ''resolved''"

record Alert =
  Loaded :: bool
  LoadedAt :: Time
  Fingerprint :: string
  Status :: string
  StartsAt :: Time
  EndsAt :: Time
  Labels :: "string \<rightharpoonup> string"
  Annotations :: "string \<rightharpoonup> string"
  GeneratorURL :: string

text \<open>\<open>DefaultAlert\<close>: the value every record decoded from JSON starts from; the two
  bookkeeping fields are never read from the payload (\<open>json:"-"\<close>).\<close>

definition DefaultAlert :: "Time \<Rightarrow> Alert" where
  "DefaultAlert now =
     \<lparr>Loaded = False, LoadedAt = now, Fingerprint = [], Status = [], StartsAt = zeroTime,
      EndsAt = zeroTime, Labels = Map.empty, Annotations = Map.empty, GeneratorURL = []\<rparr>"

text \<open>\<open>Key\<close>: \<open>fmt.Sprintf("%s:%d", a.Fingerprint, a.StartsAt.UnixMilli())\<close>.\<close>

definition Key :: "Alert \<Rightarrow> string" where
  "Key a = Fingerprint a @ '':'' @ decimal (UnixMilli (StartsAt a))"

text \<open>
  \<open>Equal\<close>: the scalar fields and the number of annotations are compared first, the
  two timestamps as structs; then every label of the receiver must be present with the
  same value in the argument.
\<close>

definition Equal :: "Alert \<Rightarrow> Alert \<Rightarrow> bool" where
  "Equal a b =
     (if Fingerprint a \<noteq> Fingerprint b \<or>
         Status a \<noteq> Status b \<or>
         StartsAt a \<noteq> StartsAt b \<or>
         EndsAt a \<noteq> EndsAt b \<or>
         GeneratorURL a \<noteq> GeneratorURL b \<or>
         card (dom (Annotations a)) \<noteq> card (dom (Annotations b))
      then False
      else Labels a \<subseteq>\<^sub>m Labels b)"

text \<open>\<open>IsExpired\<close>, with the clock reading of \<open>time.Since\<close> as a parameter.\<close>

definition IsExpired :: "Time \<Rightarrow> Duration \<Rightarrow> Alert \<Rightarrow> bool" where
  "IsExpired now t a = (Status a = Resolved \<and> Loaded a \<and> t < Since now (LoadedAt a))"

text \<open>\<open>SetResolved\<close> reads the clock twice: once for \<open>EndsAt\<close>, once for \<open>LoadedAt\<close>.\<close>

definition SetResolved :: "Time \<times> Time \<Rightarrow> Alert \<Rightarrow> Alert" where
  "SetResolved nows a =
     a\<lparr>Loaded := False, Status := Resolved, EndsAt := fst nows, LoadedAt := snd nows\<rparr>"

section \<open>The buffer (buffer/buffer.go)\<close>

text \<open>
  The buffer is a Go map from keys to pointers to records. Every pointer stored by
  \<open>Update\<close> is the address of a fresh per-iteration loop variable (the repository uses
  range-over-integer loops, so the per-iteration semantics of loop variables applies),
  hence no two entries share a record and the map is modelled by value.
\<close>

type_synonym Buffer = "string \<rightharpoonup> Alert"

datatype failure = LockError | NilDereference | FetchError

text \<open>\<open>GetUnloads\<close> allocates an empty slice and returns it.\<close>

definition GetUnloads :: "Buffer \<Rightarrow> Alert list" where
  "GetUnloads b = []"

text \<open>The body of the loop of \<open>SetLoads\<close>, for one passed record, and the loop. The
  clock is read once per marked record; \<open>clock i\<close> is the reading in iteration \<open>i\<close>.\<close>

definition SetLoads_one :: "Time \<Rightarrow> Alert \<Rightarrow> Buffer \<Rightarrow> Buffer" where
  "SetLoads_one now a b =
     (case b (Key a) of
        None \<Rightarrow> b
      | Some source \<Rightarrow>
          if Equal source a then b(Key a \<mapsto> source\<lparr>Loaded := True, LoadedAt := now\<rparr>)
          else b)"

fun SetLoads_loop :: "(nat \<Rightarrow> Time) \<Rightarrow> nat \<Rightarrow> Alert list \<Rightarrow> Buffer \<Rightarrow> Buffer" where
  "SetLoads_loop clock i [] b = b"
| "SetLoads_loop clock i (a # as) b = SetLoads_loop clock (Suc i) as (SetLoads_one (clock i) a b)"

definition SetLoads :: "(nat \<Rightarrow> Time) \<Rightarrow> Alert list \<Rightarrow> Buffer \<Rightarrow> Buffer" where
  "SetLoads clock alerts b = SetLoads_loop clock 0 alerts b"

text \<open>
  The body of the loop of \<open>Update\<close>. The stored pointer is dereferenced before any
  presence test, so an absent key is a nil-pointer panic.
\<close>

definition Update_one :: "Alert \<Rightarrow> Buffer \<Rightarrow> failure + Buffer" where
  "Update_one a b =
     (case b (Key a) of
        None \<Rightarrow> Inl NilDereference
      | Some stored \<Rightarrow>
          if Equal a stored then Inr (b(Key a \<mapsto> stored\<lparr>LoadedAt := LoadedAt a\<rparr>))
          else Inr (b(Key a \<mapsto> a)))"

text \<open>The loop stops at the panic; what earlier iterations wrote stays in the map.\<close>

fun Update_loop :: "Alert list \<Rightarrow> Buffer \<Rightarrow> Buffer \<times> failure option" where
  "Update_loop [] b = (b, None)"
| "Update_loop (a # as) b =
     (case Update_one a b of
        Inl e \<Rightarrow> (b, Some e)
      | Inr b' \<Rightarrow> Update_loop as b')"

text \<open>\<open>Update\<close>; \<open>locked\<close> tells whether the access gate was acquired before the
  caller's context ended.\<close>

definition Update :: "bool \<Rightarrow> Alert list \<Rightarrow> Buffer \<Rightarrow> Buffer \<times> failure option" where
  "Update locked alerts b =
     (if \<not> locked then (b, Some LockError) else Update_loop alerts b)"

text \<open>
  \<open>sync\<close>: \<open>fetched\<close> is the answer of the controller; \<open>clock k\<close> are the two clock
  readings taken while the entry of key \<open>k\<close> is visited.
\<close>

definition sync :: "failure + Alert list \<Rightarrow> (string \<Rightarrow> Time \<times> Time) \<Rightarrow> Buffer \<Rightarrow> Buffer \<times> failure option" where
  "sync fetched clock b =
     (case fetched of
        Inl e \<Rightarrow> (b, Some e)
      | Inr alerts \<Rightarrow>
          ((\<lambda>key. case b key of
                    None \<Rightarrow> None
                  | Some a \<Rightarrow>
                      if key \<notin> Key ` set alerts \<and> Status a = Firing
                      then Some (SetResolved (clock key) a)
                      else Some a),
           None))"

text \<open>\<open>gc\<close>: \<open>clock k\<close> is the clock reading while the entry of key \<open>k\<close> is visited.\<close>

definition gc :: "(string \<Rightarrow> Time) \<Rightarrow> Duration \<Rightarrow> Buffer \<Rightarrow> Buffer" where
  "gc clock maxLifetime b =
     (\<lambda>key. case b key of
              None \<Rightarrow> None
            | Some a \<Rightarrow> if IsExpired (clock key) maxLifetime a then None else Some a)"

section \<open>Decoding a pushed record (\<open>Alert.UnmarshalJSON\<close>)\<close>

text \<open>
  The receiver is first overwritten with \<open>DefaultAlert()\<close>, then the fields of the
  payload are decoded into it; \<open>payload\<close> stands for the content fields of the JSON
  document.
\<close>

definition UnmarshalJSON :: "Time \<Rightarrow> Alert \<Rightarrow> Alert" where
  "UnmarshalJSON now payload =
     payload\<lparr>Loaded := Loaded (DefaultAlert now), LoadedAt := LoadedAt (DefaultAlert now)\<rparr>"

section \<open>The persistence engine (storage/storage.go)\<close>

text \<open>
  \<open>Save\<close> starts \<open>parallelism\<close> workers and then receives \<open>len(alerts)\<close> times from the
  two unbuffered result channels. It is modelled as a transition system over its
  goroutines. A worker is blocked receiving from \<open>intermediate\<close>, or holds the outcome
  of \<open>save\<close> and is blocked sending it on \<open>successesChan\<close> or on \<open>errChan\<close>. The
  field \<open>offered\<close> lists the values that blocked senders offer on \<open>intermediate\<close>;
  the body of \<open>Save\<close> contains no send on that channel, so it starts empty. The outcome
  of the transaction \<open>save\<close> is the parameter \<open>save_ok\<close>.
\<close>

datatype worker = Receiving | SendingSuccess Alert | SendingError

record save_state =
  offered :: "Alert list"
  workers :: "worker list"
  successAlerts :: "Alert list"
  remaining :: nat

definition Save_init :: "int \<Rightarrow> Alert list \<Rightarrow> save_state" where
  "Save_init parallelism alerts =
     \<lparr>offered = [], workers = replicate (nat parallelism) Receiving,
      successAlerts = [], remaining = length alerts\<rparr>"

inductive Save_step :: "(Alert \<Rightarrow> bool) \<Rightarrow> save_state \<Rightarrow> save_state \<Rightarrow> bool"
  for save_ok :: "Alert \<Rightarrow> bool" where
  worker_receive:
    "i < length (workers s) \<Longrightarrow> workers s ! i = Receiving \<Longrightarrow> offered s = xs @ a # ys \<Longrightarrow>
     Save_step save_ok s
       (s\<lparr>offered := xs @ ys,
          workers := (workers s)[i := if save_ok a then SendingSuccess a else SendingError]\<rparr>)"
| collect_success:
    "i < length (workers s) \<Longrightarrow> workers s ! i = SendingSuccess a \<Longrightarrow> remaining s = Suc n \<Longrightarrow>
     Save_step save_ok s
       (s\<lparr>workers := (workers s)[i := Receiving],
          successAlerts := successAlerts s @ [a], remaining := n\<rparr>)"
| collect_error:
    "i < length (workers s) \<Longrightarrow> workers s ! i = SendingError \<Longrightarrow> remaining s = Suc n \<Longrightarrow>
     Save_step save_ok s (s\<lparr>workers := (workers s)[i := Receiving], remaining := n\<rparr>)"

text \<open>\<open>Save\<close> returns \<open>result\<close> when its collecting loop has run \<open>len(alerts)\<close> times.\<close>

definition Save_returns :: "(Alert \<Rightarrow> bool) \<Rightarrow> int \<Rightarrow> Alert list \<Rightarrow> Alert list \<Rightarrow> bool" where
  "Save_returns save_ok parallelism alerts result =
     (\<exists>s. (Save_step save_ok)\<^sup>*\<^sup>* (Save_init parallelism alerts) s \<and>
          remaining s = 0 \<and> successAlerts s = result)"

section \<open>The running system\<close>

text \<open>
  One step of the system on the buffer: a webhook request decodes its records and calls
  \<open>Update\<close> (a panic is recovered by the HTTP server and leaves the map as it is at that
  point); the buffer's tickers call \<open>sync\<close> and \<open>gc\<close>; each pass of \<open>Storage.Run\<close>,
  and the final pass of \<open>Storage.Stop\<close>, calls \<open>GetUnloads\<close>, \<open>Save\<close> and
  \<open>SetLoads\<close>.
\<close>

inductive system_step :: "(Alert \<Rightarrow> bool) \<Rightarrow> int \<Rightarrow> Duration \<Rightarrow> Buffer \<Rightarrow> Buffer \<Rightarrow> bool"
  for save_ok :: "Alert \<Rightarrow> bool" and parallelism :: int and maxLifetime :: Duration where
  webhook:
    "system_step save_ok parallelism maxLifetime b
       (fst (Update locked (map (\<lambda>(now, payload). UnmarshalJSON now payload) payloads) b))"
| buffer_sync:
    "system_step save_ok parallelism maxLifetime b (fst (sync fetched clock b))"
| buffer_gc:
    "system_step save_ok parallelism maxLifetime b (gc clock maxLifetime b)"
| storage_pass:
    "Save_returns save_ok parallelism (GetUnloads b) successes \<Longrightarrow>
     system_step save_ok parallelism maxLifetime b (SetLoads clock successes b)"

text \<open>No record of the buffer is marked as written to the database.\<close>

definition none_loaded :: "Buffer \<Rightarrow> bool" where
  "none_loaded b = (Loaded ` ran b \<subseteq> {False})"

section \<open>Example records\<close>

text \<open>A firing record as the webhook decodes it, and the same record after it was
  marked as written to the database.\<close>

definition alertA :: Alert where
  "alertA =
     \<lparr>Loaded = False, LoadedAt = Now 1751495000000000000 5000000000,
      Fingerprint = ''077bf4e884599215'', Status = Firing,
      StartsAt = UTC 1751494998268000000, EndsAt = UTC 1751954748268000000,
      Labels = [''alertname'' \<mapsto> ''clusterAvailabilityLow''],
      Annotations = [''summary'' \<mapsto> ''availability below 90%''],
      GeneratorURL = ''/graph''\<rparr>"

definition alertA_saved :: Alert where
  "alertA_saved = alertA\<lparr>Loaded := True, LoadedAt := Now 1751495001000000000 6000000000\<rparr>"

text \<open>The record pushed again later, unchanged; and pushed with another summary.\<close>

definition alertA_again :: Alert where
  "alertA_again = alertA\<lparr>LoadedAt := Now 1751495060000000000 65000000000\<rparr>"

definition alertA_edited :: Alert where
  "alertA_edited =
     alertA\<lparr>LoadedAt := Now 1751495060000000000 65000000000,
            Annotations := [''summary'' \<mapsto> ''availability below 80%'']\<rparr>"

text \<open>A second firing of the same condition, 500 microseconds after the first; and one
  a millisecond after the first.\<close>

definition alertA_refired :: Alert where
  "alertA_refired = alertA\<lparr>StartsAt := UTC 1751494998268500000\<rparr>"


text \<open>
  The same condition reported with timestamps of offset \<open>+05:30\<close>: the record as
  decoded from a first delivery and marked as written, and as decoded from a second
  delivery of the same payload. Each decoding allocates its own location.
\<close>

definition alertI_saved :: Alert where
  "alertI_saved =
     alertA\<lparr>Loaded := True, LoadedAt := Now 1751495001000000000 6000000000,
            StartsAt := \<lparr>instant = 1751494998268000000, monotonic = None, loc = 2\<rparr>,
            EndsAt := \<lparr>instant = 1751954748268000000, monotonic = None, loc = 3\<rparr>\<rparr>"

definition alertI_again :: Alert where
  "alertI_again =
     alertA\<lparr>LoadedAt := Now 1751495060000000000 65000000000,
            StartsAt := \<lparr>instant = 1751494998268000000, monotonic = None, loc = 4\<rparr>,
            EndsAt := \<lparr>instant = 1751954748268000000, monotonic = None, loc = 5\<rparr>\<rparr>"

text \<open>The clock readings of a reconciliation sweep.\<close>

definition sweep_clock :: "string \<Rightarrow> Time \<times> Time" where
  "sweep_clock key = (Now 1751495100000000000 105000000000, Now 1751495100000000050 105000000050)"

text \<open>Another condition, firing; and a resolved record.\<close>

definition alertB :: Alert where
  "alertB =
     \<lparr>Loaded = False, LoadedAt = Now 1751495000000000000 5000000000,
      Fingerprint = ''dd19ae3d4e06ac55'', Status = Firing,
      StartsAt = UTC 1546425106054000000, EndsAt = zeroTime,
      Labels = [''alertname'' \<mapsto> ''MyAlertName''],
      Annotations = [''summary'' \<mapsto> ''Non ephemeral host is DOWN''],
      GeneratorURL = ''http://prometheus.int/graph''\<rparr>"

definition alertB_resolved :: Alert where
  "alertB_resolved =
     alertB\<lparr>Loaded := True, Status := Resolved, EndsAt := UTC 1546425406054000000\<rparr>"

section \<open>Auxiliary facts\<close>

subsection \<open>Milliseconds in 64 bits\<close>

lemma int64_add_left: "int64 (int64 a + b) = int64 (a + b)"
proof -
  have e: "int64 a + b + 2 ^ 63 = (a + 2 ^ 63) mod 2 ^ 64 + b"
    by (simp add: int64_def)
  have "(int64 a + b + 2 ^ 63) mod 2 ^ 64 = ((a + 2 ^ 63) mod 2 ^ 64 + b) mod 2 ^ 64"
    by (simp only: e)
  also have "\<dots> = (a + 2 ^ 63 + b) mod 2 ^ 64"
    by (rule mod_add_left_eq)
  also have "a + 2 ^ 63 + b = a + b + 2 ^ 63"
    by simp
  finally show ?thesis
    unfolding int64_def by simp
qed

lemma millis_split:
  "(x div 1000000000) * 1000 + (x mod 1000000000) div 1000000 = x div (1000000 :: int)"
proof -
  have d: "x div (1000000 * 1000) = (x div 1000000) div 1000"
    by (rule zdiv_zmult2_eq) simp
  have m: "x mod (1000000 * 1000) = 1000000 * (x div 1000000 mod 1000) + x mod 1000000"
    by (rule zmod_zmult2_eq) simp
  have "(1000000 * (x div 1000000 mod 1000) + x mod 1000000) div 1000000 = x div 1000000 mod 1000"
    by simp
  with d m show ?thesis by simp
qed

lemma UnixMilli_eq: "UnixMilli t = int64 (instant t div 1000000)"
  by (simp add: UnixMilli_def unixSec_def nsec_def int64_add_left millis_split)


lemma int64_period: "int64 (x + 2 ^ 64) = int64 x"
proof -
  have "x + 2 ^ 64 + 2 ^ 63 = (x + 2 ^ 63) + (2 ^ 64 :: int)" by simp
  then have "(x + 2 ^ 64 + 2 ^ 63) mod 2 ^ 64 = (x + 2 ^ 63) mod (2 ^ 64 :: int)"
    by (simp only: mod_add_self2)
  then show ?thesis unfolding int64_def by simp
qed

lemma UnixMilli_wraps:
  "instant u = instant t + 2 ^ 64 * 1000000 \<Longrightarrow> UnixMilli u = UnixMilli t"
proof -
  assume "instant u = instant t + 2 ^ 64 * 1000000"
  then have "instant u div 1000000 = instant t div 1000000 + 2 ^ 64"
    by simp
  then show ?thesis by (simp only: UnixMilli_eq int64_period)
qed

subsection \<open>Keys determine fingerprint and millisecond\<close>

lemma digit_val_digit_char: "d < 10 \<Longrightarrow> digit_val (digit_char d) = d"
  by (simp add: digit_val_def digit_char_def)

lemma digit_char_not_minus: "d < 10 \<Longrightarrow> digit_char d \<noteq> CHR ''-''"
proof
  assume "d < 10" and "digit_char d = CHR ''-''"
  then have "(of_char (digit_char d) :: nat) = of_char (CHR ''-'')" by simp
  with \<open>d < 10\<close> show False by (simp add: digit_char_def)
qed

lemma undecimal_nat_snoc: "undecimal_nat (s @ [c]) = 10 * undecimal_nat s + digit_val c"
  by (simp add: undecimal_nat_def)

lemma undecimal_nat_decimal_nat: "undecimal_nat (decimal_nat n) = n"
proof (induction n rule: decimal_nat.induct)
  case (1 n)
  show ?case
  proof (cases "n < 10")
    case True
    then show ?thesis
      by (subst decimal_nat.simps) (simp add: undecimal_nat_def digit_val_digit_char)
  next
    case False
    with 1 have "undecimal_nat (decimal_nat (n div 10)) = n div 10" by simp
    with False show ?thesis
      by (subst decimal_nat.simps) (simp add: undecimal_nat_snoc digit_val_digit_char)
  qed
qed

lemma decimal_nat_head: "\<exists>d cs. d < 10 \<and> decimal_nat n = digit_char d # cs"
proof (induction n rule: decimal_nat.induct)
  case (1 n)
  show ?case
  proof (cases "n < 10")
    case True
    then show ?thesis by (subst decimal_nat.simps) auto
  next
    case False
    with 1 obtain d cs where "d < 10" "decimal_nat (n div 10) = digit_char d # cs" by blast
    with False show ?thesis by (subst decimal_nat.simps) auto
  qed
qed

lemma undecimal_decimal: "undecimal (decimal i) = i"
proof -
  obtain d cs where d: "d < 10" "decimal_nat (nat i) = digit_char d # cs"
    using decimal_nat_head by blast
  show ?thesis
  proof (cases "i < 0")
    case True
    then show ?thesis by (simp add: decimal_def undecimal_def undecimal_nat_decimal_nat)
  next
    case False
    have "undecimal (decimal_nat (nat i)) = int (undecimal_nat (decimal_nat (nat i)))"
      using d by (simp add: undecimal_def digit_char_not_minus)
    with False show ?thesis by (simp add: decimal_def undecimal_nat_decimal_nat)
  qed
qed

lemma decimal_inject: "decimal i = decimal j \<Longrightarrow> i = j"
  by (metis undecimal_decimal)


lemma digit_char_not_colon: "d < 10 \<Longrightarrow> digit_char d \<noteq> CHR '':''"
proof
  assume "d < 10" and "digit_char d = CHR '':''"
  then have "(of_char (digit_char d) :: nat) = of_char (CHR '':'')" by simp
  with \<open>d < 10\<close> show False by (simp add: digit_char_def)
qed

lemma colon_notin_decimal_nat: "CHR '':'' \<notin> set (decimal_nat n)"
proof (induction n rule: decimal_nat.induct)
  case (1 n)
  show ?case
  proof (cases "n < 10")
    case True
    then show ?thesis
      using digit_char_not_colon [of n] by (subst decimal_nat.simps) auto
  next
    case False
    with 1 have "CHR '':'' \<notin> set (decimal_nat (n div 10))" by simp
    moreover have "digit_char (n mod 10) \<noteq> CHR '':''"
      by (rule digit_char_not_colon) simp
    ultimately show ?thesis
      using False by (subst decimal_nat.simps) auto
  qed
qed

lemma colon_notin_decimal: "CHR '':'' \<notin> set (decimal i)"
  by (simp add: decimal_def colon_notin_decimal_nat)

lemma split_at_last:
  "c \<notin> set ys \<Longrightarrow> c \<notin> set ys' \<Longrightarrow> xs @ c # ys = xs' @ c # ys' \<Longrightarrow> xs = xs' \<and> ys = ys'"
proof (induction xs arbitrary: xs')
  case Nil
  then show ?case by (cases xs') auto
next
  case (Cons x xs)
  show ?case
  proof (cases xs')
    case Nil
    with Cons.prems show ?thesis by auto
  next
    case (Cons z zs)
    with Cons.prems Cons.IH [of zs] show ?thesis by auto
  qed
qed

lemma Key_eq_iff:
  "(Key x = Key y) =
     (Fingerprint x = Fingerprint y \<and> UnixMilli (StartsAt x) = UnixMilli (StartsAt y))"
proof
  assume "Key x = Key y"
  then have "Fingerprint x @ CHR '':'' # decimal (UnixMilli (StartsAt x)) =
             Fingerprint y @ CHR '':'' # decimal (UnixMilli (StartsAt y))"
    by (simp add: Key_def)
  then have "Fingerprint x = Fingerprint y \<and>
             decimal (UnixMilli (StartsAt x)) = decimal (UnixMilli (StartsAt y))"
    by (rule split_at_last [OF colon_notin_decimal colon_notin_decimal])
  then show "Fingerprint x = Fingerprint y \<and> UnixMilli (StartsAt x) = UnixMilli (StartsAt y)"
    by (auto dest: decimal_inject)
next
  assume "Fingerprint x = Fingerprint y \<and> UnixMilli (StartsAt x) = UnixMilli (StartsAt y)"
  then show "Key x = Key y" by (simp add: Key_def)
qed

subsection \<open>Content comparison\<close>

lemma Firing_neq_Resolved: "Firing \<noteq> Resolved"
  by (simp add: Firing_def Resolved_def)

lemma Equal_same_content:
  assumes "a\<lparr>Loaded := l, LoadedAt := t\<rparr> = s"
  shows "Equal a s"
proof -
  have "Fingerprint s = Fingerprint a" "Status s = Status a" "StartsAt s = StartsAt a"
    "EndsAt s = EndsAt a" "GeneratorURL s = GeneratorURL a" "Annotations s = Annotations a"
    "Labels s = Labels a"
    using assms by auto
  then show ?thesis by (simp add: Equal_def)
qed

lemma Equal_ignores_bookkeeping [simp]:
  "Equal (s\<lparr>Loaded := l\<rparr>) a = Equal s a"
  "Equal (s\<lparr>LoadedAt := t\<rparr>) a = Equal s a"
  "Equal a (s\<lparr>Loaded := l\<rparr>) = Equal a s"
  "Equal a (s\<lparr>LoadedAt := t\<rparr>) = Equal a s"
  by (simp_all add: Equal_def)

section \<open>Duplicate deliveries\<close>

text \<open>
  A batch in which every record finds, under its key, a stored record that it is
  \<open>Equal\<close> to, is a batch of duplicates. \<open>Update\<close> then does not fail, keeps the
  keys of the buffer, and changes nothing but \<open>LoadedAt\<close>: an entry whose key occurs
  in the batch gets the \<open>LoadedAt\<close> of the last record of the batch with that key, and
  every record keeps its \<open>Loaded\<close> flag. Records whose content fields are equal as Go
  values are \<open>Equal\<close>.
\<close>

lemma Update_one_duplicate:
  "b (Key a) = Some s \<Longrightarrow> Equal a s \<Longrightarrow>
   Update_one a b = Inr (b(Key a \<mapsto> s\<lparr>LoadedAt := LoadedAt a\<rparr>))"
  by (simp add: Update_one_def)

lemma Update_loop_duplicates:
  assumes "\<forall>a \<in> set alerts. \<exists>s. b (Key a) = Some s \<and> Equal a s"
  shows "Update_loop alerts b =
           (\<lambda>k. case b k of
                   None \<Rightarrow> None
                 | Some s \<Rightarrow>
                     Some (case filter (\<lambda>a. Key a = k) alerts of
                             [] \<Rightarrow> s
                           | x # xs \<Rightarrow> s\<lparr>LoadedAt := LoadedAt (last (x # xs))\<rparr>),
            None)"
  using assms
proof (induction alerts arbitrary: b)
  case Nil
  have "b = (\<lambda>k. case b k of
                   None \<Rightarrow> None
                 | Some s \<Rightarrow>
                     Some (case filter (\<lambda>a. Key a = k) [] of
                             [] \<Rightarrow> s
                           | x # xs \<Rightarrow> s\<lparr>LoadedAt := LoadedAt (last (x # xs))\<rparr>))"
    by (rule ext) (simp split: option.splits)
  then show ?case by simp
next
  case (Cons a alerts)
  from Cons.prems obtain s where s: "b (Key a) = Some s" "Equal a s" by auto
  define b1 where "b1 = b(Key a \<mapsto> s\<lparr>LoadedAt := LoadedAt a\<rparr>)"
  have step: "Update_one a b = Inr b1"
    using s by (simp add: b1_def Update_one_duplicate)
  have "\<forall>x \<in> set alerts. \<exists>s'. b1 (Key x) = Some s' \<and> Equal x s'"
  proof
    fix x assume "x \<in> set alerts"
    with Cons.prems obtain s' where "b (Key x) = Some s'" "Equal x s'" by auto
    with s show "\<exists>s'. b1 (Key x) = Some s' \<and> Equal x s'"
      by (cases "Key x = Key a") (auto simp: b1_def)
  qed
  then have IH: "Update_loop alerts b1 =
           (\<lambda>k. case b1 k of
                   None \<Rightarrow> None
                 | Some s \<Rightarrow>
                     Some (case filter (\<lambda>a. Key a = k) alerts of
                             [] \<Rightarrow> s
                           | x # xs \<Rightarrow> s\<lparr>LoadedAt := LoadedAt (last (x # xs))\<rparr>),
            None)"
    by (rule Cons.IH)
  have "(\<lambda>k. case b1 k of
                   None \<Rightarrow> None
                 | Some s \<Rightarrow>
                     Some (case filter (\<lambda>a. Key a = k) alerts of
                             [] \<Rightarrow> s
                           | x # xs \<Rightarrow> s\<lparr>LoadedAt := LoadedAt (last (x # xs))\<rparr>)) =
        (\<lambda>k. case b k of
                   None \<Rightarrow> None
                 | Some s \<Rightarrow>
                     Some (case filter (\<lambda>a. Key a = k) (a # alerts) of
                             [] \<Rightarrow> s
                           | x # xs \<Rightarrow> s\<lparr>LoadedAt := LoadedAt (last (x # xs))\<rparr>))"
  proof (rule ext)
    fix k
    show "(case b1 k of
                   None \<Rightarrow> None
                 | Some s \<Rightarrow>
                     Some (case filter (\<lambda>a. Key a = k) alerts of
                             [] \<Rightarrow> s
                           | x # xs \<Rightarrow> s\<lparr>LoadedAt := LoadedAt (last (x # xs))\<rparr>)) =
        (case b k of
                   None \<Rightarrow> None
                 | Some s \<Rightarrow>
                     Some (case filter (\<lambda>a. Key a = k) (a # alerts) of
                             [] \<Rightarrow> s
                           | x # xs \<Rightarrow> s\<lparr>LoadedAt := LoadedAt (last (x # xs))\<rparr>))"
    proof (cases "k = Key a")
      case True
      with s show ?thesis
        by (cases "filter (\<lambda>x. Key x = Key a) alerts") (simp_all add: b1_def)
    next
      case False
      then have "Key a \<noteq> k" by blast
      with False show ?thesis by (cases "b k") (simp_all add: b1_def)
    qed
  qed
  with step IH show ?case by simp
qed

lemma Update_duplicates_batch:
  assumes "\<forall>a \<in> set alerts. \<exists>s. b (Key a) = Some s \<and> Equal a s"
  shows "snd (Update True alerts b) = None"
    and "dom (fst (Update True alerts b)) = dom b"
    and "b k = Some s \<Longrightarrow> \<exists>s'. fst (Update True alerts b) k = Some s' \<and>
           s'\<lparr>LoadedAt := LoadedAt s\<rparr> = s"
    and "b k = Some s \<Longrightarrow> a \<in> set alerts \<Longrightarrow> Key a = k \<Longrightarrow>
           \<exists>a' \<in> set alerts. Key a' = k \<and>
             fst (Update True alerts b) k = Some (s\<lparr>LoadedAt := LoadedAt a'\<rparr>)"
    and "b k = Some s \<Longrightarrow> k \<notin> Key ` set alerts \<Longrightarrow> fst (Update True alerts b) k = Some s"
proof -
  note U = Update_loop_duplicates [OF assms]
  show "snd (Update True alerts b) = None"
    by (simp add: Update_def U)
  show "dom (fst (Update True alerts b)) = dom b"
    by (auto simp: Update_def U split: option.splits)
  show "\<exists>s'. fst (Update True alerts b) k = Some s' \<and> s'\<lparr>LoadedAt := LoadedAt s\<rparr> = s"
    if "b k = Some s"
    using that by (simp add: Update_def U split: list.splits)
  show "\<exists>a' \<in> set alerts. Key a' = k \<and>
          fst (Update True alerts b) k = Some (s\<lparr>LoadedAt := LoadedAt a'\<rparr>)"
    if "b k = Some s" "a \<in> set alerts" "Key a = k"
  proof -
    from that have ne: "filter (\<lambda>a. Key a = k) alerts \<noteq> []"
      by (auto simp: filter_empty_conv)
    then have "last (filter (\<lambda>a. Key a = k) alerts) \<in> set (filter (\<lambda>a. Key a = k) alerts)"
      by (rule last_in_set)
    then have "last (filter (\<lambda>a. Key a = k) alerts) \<in> set alerts"
      and "Key (last (filter (\<lambda>a. Key a = k) alerts)) = k"
      by auto
    moreover have "fst (Update True alerts b) k =
        Some (s\<lparr>LoadedAt := LoadedAt (last (filter (\<lambda>a. Key a = k) alerts))\<rparr>)"
      using that(1) ne by (simp add: Update_def U split: list.splits)
    ultimately show ?thesis by blast
  qed
  show "fst (Update True alerts b) k = Some s" if "b k = Some s" "k \<notin> Key ` set alerts"
  proof -
    from that(2) have "filter (\<lambda>a. Key a = k) alerts = []"
      by (auto simp: filter_empty_conv)
    with that(1) show ?thesis by (simp add: Update_def U)
  qed
qed

text \<open>
  C1. A record with timestamps of offset \<open>+05:30\<close> is stored and marked as written,
  and the same payload is delivered again. The two deliveries agree in fingerprint,
  status, the instants of both timestamps, labels, annotations and generator URL, and
  have the same key. The second decoding has allocated its own locations, so the
  timestamps differ as structs, \<open>Equal\<close> is false, and \<open>Update\<close> replaces the stored
  record by the incoming one: the mark is lost and the record will be saved again.
\<close>

theorem Update_redelivery_resets_loaded:
  "Fingerprint alertI_again = Fingerprint alertI_saved \<and>
   Status alertI_again = Status alertI_saved \<and>
   instant (StartsAt alertI_again) = instant (StartsAt alertI_saved) \<and>
   instant (EndsAt alertI_again) = instant (EndsAt alertI_saved) \<and>
   Labels alertI_again = Labels alertI_saved \<and>
   Annotations alertI_again = Annotations alertI_saved \<and>
   GeneratorURL alertI_again = GeneratorURL alertI_saved \<and>
   Key alertI_again = Key alertI_saved \<and>
   Loaded alertI_saved \<and>
   Update True [alertI_again] [Key alertI_saved \<mapsto> alertI_saved] =
     ([Key alertI_saved \<mapsto> alertI_again], None) \<and>
   \<not> Loaded alertI_again"
proof -
  have k: "Key alertI_again = Key alertI_saved"
    by (simp add: Key_eq_iff UnixMilli_eq alertI_again_def alertI_saved_def)
  have n: "\<not> Equal alertI_again alertI_saved"
    by (simp add: Equal_def alertI_again_def alertI_saved_def)
  have u: "Update_one alertI_again [Key alertI_saved \<mapsto> alertI_saved] =
      Inr [Key alertI_saved \<mapsto> alertI_again]"
    using n by (simp add: Update_one_def k)
  have c: "Fingerprint alertI_again = Fingerprint alertI_saved"
    "Status alertI_again = Status alertI_saved"
    "instant (StartsAt alertI_again) = instant (StartsAt alertI_saved)"
    "instant (EndsAt alertI_again) = instant (EndsAt alertI_saved)"
    "Labels alertI_again = Labels alertI_saved"
    "Annotations alertI_again = Annotations alertI_saved"
    "GeneratorURL alertI_again = GeneratorURL alertI_saved"
    "Loaded alertI_saved" "\<not> Loaded alertI_again"
    by (simp_all add: alertI_again_def alertI_saved_def alertA_def)
  show ?thesis using k u c by (simp add: Update_def)
qed

section \<open>Reading the unsaved records\<close>

text \<open>
  C2. \<open>GetUnloads\<close> is documented to return the records of the buffer that are not yet
  written to the database. On a buffer that holds one such record it returns the empty
  list.
\<close>

theorem GetUnloads_misses_unsaved:
  "\<not> Loaded alertA \<and> [Key alertA \<mapsto> alertA] (Key alertA) = Some alertA \<and>
   GetUnloads [Key alertA \<mapsto> alertA] = []"
  by (simp add: GetUnloads_def alertA_def)

section \<open>Changed content\<close>

text \<open>
  C4. A stored record that was marked as written is pushed again with the same key and
  another value of its \<open>summary\<close> annotation. \<open>Equal\<close> compares only the number
  of annotations, so \<open>Update\<close> takes the delivery for a duplicate: the stored record
  keeps the old annotation and stays marked, only \<open>LoadedAt\<close> moves.
\<close>

theorem Update_edited_annotation_ignored:
  "Key alertA_edited = Key alertA \<and>
   Annotations alertA_edited \<noteq> Annotations alertA_saved \<and>
   Update True [alertA_edited] [Key alertA \<mapsto> alertA_saved] =
     ([Key alertA \<mapsto> alertA_saved\<lparr>LoadedAt := LoadedAt alertA_edited\<rparr>], None) \<and>
   Loaded (alertA_saved\<lparr>LoadedAt := LoadedAt alertA_edited\<rparr>) \<and>
   Annotations (alertA_saved\<lparr>LoadedAt := LoadedAt alertA_edited\<rparr>) = Annotations alertA"
proof -
  have k: "Key alertA_edited = Key alertA"
    by (simp add: Key_def alertA_edited_def)
  have e: "Equal alertA_edited alertA_saved"
    by (simp add: Equal_def alertA_edited_def alertA_saved_def alertA_def)
  have n: "Annotations alertA_edited \<noteq> Annotations alertA_saved"
  proof
    assume "Annotations alertA_edited = Annotations alertA_saved"
    then have "Annotations alertA_edited ''summary'' = Annotations alertA_saved ''summary''"
      by simp
    then show False by (simp add: alertA_edited_def alertA_saved_def alertA_def)
  qed
  have u: "Update_one alertA_edited [Key alertA \<mapsto> alertA_saved] =
      Inr [Key alertA \<mapsto> alertA_saved\<lparr>LoadedAt := LoadedAt alertA_edited\<rparr>]"
    using e by (simp add: Update_one_def k)
  show ?thesis using k n u by (simp add: Update_def alertA_saved_def)
qed

section \<open>Unseen keys\<close>

text \<open>
  C5. \<open>Update\<close> on a record whose key is not in the map dereferences a nil pointer:
  the call panics and nothing is inserted.
\<close>

theorem Update_unseen_panics:
  "Update True [alertA] Map.empty = (Map.empty, Some NilDereference)"
  by (simp add: Update_def Update_one_def)

text \<open>The same happens at the first record of any batch whose key is absent.\<close>

lemma Update_absent_key_panics:
  "b (Key a) = None \<Longrightarrow> Update True (a # as) b = (b, Some NilDereference)"
  by (simp add: Update_def Update_one_def)

section \<open>Saving a batch\<close>

text \<open>
  From its initial configuration \<open>Save\<close> can take no step: no worker holds an outcome
  and nothing is offered on \<open>intermediate\<close>. So it returns exactly when the batch
  is empty, and then it returns the empty list.
\<close>

lemma Save_init_stuck: "\<not> Save_step save_ok (Save_init parallelism alerts) s"
proof
  assume "Save_step save_ok (Save_init parallelism alerts) s"
  then show False
  proof cases
    case (worker_receive i xs a ys)
    then show False by (simp add: Save_init_def)
  next
    case (collect_success i a n)
    then show False by (simp add: Save_init_def)
  next
    case (collect_error i n)
    then show False by (simp add: Save_init_def)
  qed
qed

lemma Save_init_reachable:
  "(Save_step save_ok)\<^sup>*\<^sup>* (Save_init parallelism alerts) s \<Longrightarrow> s = Save_init parallelism alerts"
  by (erule converse_rtranclpE) (simp_all add: Save_init_stuck)

lemma Save_returns_iff:
  "Save_returns save_ok parallelism alerts result = (alerts = [] \<and> result = [])"
proof
  assume "Save_returns save_ok parallelism alerts result"
  then obtain s where "(Save_step save_ok)\<^sup>*\<^sup>* (Save_init parallelism alerts) s"
    and "remaining s = 0" and "successAlerts s = result"
    by (auto simp: Save_returns_def)
  moreover from this have "s = Save_init parallelism alerts"
    by (simp add: Save_init_reachable)
  ultimately show "alerts = [] \<and> result = []"
    by (auto simp: Save_init_def)
next
  assume "alerts = [] \<and> result = []"
  then have "(Save_step save_ok)\<^sup>*\<^sup>* (Save_init parallelism alerts) (Save_init parallelism alerts) \<and>
    remaining (Save_init parallelism alerts) = 0 \<and> successAlerts (Save_init parallelism alerts) = result"
    by (simp add: Save_init_def)
  then show "Save_returns save_ok parallelism alerts result"
    unfolding Save_returns_def by blast
qed

text \<open>
  C3. On a batch of one record, with four workers and a store on which every transaction
  succeeds, \<open>Save\<close> never returns: one outcome is still to be collected and no
  goroutine can move. In particular it does not return the record.
\<close>

theorem Save_never_returns_on_batch:
  "\<not> Save_returns (\<lambda>a. True) 4 [alertA] [alertA] \<and>
   (\<nexists>result. Save_returns (\<lambda>a. True) 4 [alertA] result) \<and>
   (\<nexists>s. Save_step (\<lambda>a. True) (Save_init 4 [alertA]) s) \<and>
   remaining (Save_init 4 [alertA]) = 1"
  by (simp add: Save_returns_iff Save_init_stuck) (simp add: Save_init_def)


section \<open>The system as wired\<close>

lemma none_loaded_iff: "none_loaded b = (\<forall>k a. b k = Some a \<longrightarrow> \<not> Loaded a)"
  by (auto simp: none_loaded_def ran_def)

lemma Update_one_none_loaded:
  "none_loaded b \<Longrightarrow> \<not> Loaded a \<Longrightarrow> Update_one a b = Inr b' \<Longrightarrow> none_loaded b'"
  by (auto simp: none_loaded_iff Update_one_def split: option.splits if_splits)

lemma Update_loop_none_loaded:
  "none_loaded b \<Longrightarrow> \<forall>a \<in> set alerts. \<not> Loaded a \<Longrightarrow> none_loaded (fst (Update_loop alerts b))"
proof (induction alerts arbitrary: b)
  case Nil
  then show ?case by simp
next
  case (Cons a alerts)
  show ?case
  proof (cases "Update_one a b")
    case (Inl e)
    with Cons.prems show ?thesis by simp
  next
    case (Inr b')
    with Cons.prems have "none_loaded b'" by (auto dest: Update_one_none_loaded)
    with Cons.IH [of b'] Cons.prems Inr show ?thesis by simp
  qed
qed

lemma Update_none_loaded:
  "none_loaded b \<Longrightarrow> \<forall>a \<in> set alerts. \<not> Loaded a \<Longrightarrow> none_loaded (fst (Update locked alerts b))"
  by (simp add: Update_def Update_loop_none_loaded)

lemma UnmarshalJSON_not_Loaded: "\<not> Loaded (UnmarshalJSON now payload)"
  by (simp add: UnmarshalJSON_def DefaultAlert_def)

lemma sync_none_loaded: "none_loaded b \<Longrightarrow> none_loaded (fst (sync fetched clock b))"
  by (auto simp: none_loaded_iff sync_def SetResolved_def split: sum.splits option.splits if_splits)

lemma gc_none_loaded_id: "none_loaded b \<Longrightarrow> gc clock maxLifetime b = b"
  by (rule ext) (auto simp: none_loaded_iff gc_def IsExpired_def split: option.splits)

lemma system_step_none_loaded:
  assumes "system_step save_ok parallelism maxLifetime b b'" and "none_loaded b"
  shows "none_loaded b'"
  using assms
proof cases
  case (webhook locked payloads)
  with assms(2) show ?thesis
    by (auto intro!: Update_none_loaded simp: UnmarshalJSON_not_Loaded)
next
  case (buffer_sync fetched clock)
  with assms(2) show ?thesis by (simp add: sync_none_loaded)
next
  case (buffer_gc clock)
  with assms(2) show ?thesis by (simp add: gc_none_loaded_id)
next
  case (storage_pass successes clock)
  then have "successes = []" by (simp add: Save_returns_iff)
  with storage_pass assms(2) show ?thesis by (simp add: SetLoads_def)
qed

text \<open>
  C9. Start from a buffer in which no record is marked as written, and let the system
  run: webhook requests, reconciliation sweeps, eviction sweeps and passes of the storage
  engine, in any order and number. Then still no record is marked; \<open>GetUnloads\<close>
  returns the empty list, \<open>Save\<close> on it returns the empty list and nothing else, and
  \<open>SetLoads\<close> on that result leaves the buffer as it is; no record satisfies
  \<open>IsExpired\<close> at any clock reading, and an eviction sweep removes nothing.
\<close>

theorem nothing_ever_loaded:
  assumes "none_loaded b0"
    and "(system_step save_ok parallelism maxLifetime)\<^sup>*\<^sup>* b0 b"
  shows "none_loaded b \<and>
         GetUnloads b = [] \<and>
         Save_returns save_ok parallelism (GetUnloads b) [] \<and>
         (\<forall>successes. Save_returns save_ok parallelism (GetUnloads b) successes \<longrightarrow>
            successes = [] \<and> SetLoads clock successes b = b) \<and>
         (\<forall>key a now. b key = Some a \<longrightarrow> \<not> IsExpired now maxLifetime a) \<and>
         gc clock' maxLifetime b = b"
proof -
  from assms(2) assms(1) have inv: "none_loaded b"
    by (induction rule: rtranclp_induct) (auto intro: system_step_none_loaded)
  have "\<forall>key a now. b key = Some a \<longrightarrow> \<not> IsExpired now maxLifetime a"
    using inv by (auto simp: none_loaded_iff IsExpired_def)
  moreover have "\<forall>successes. Save_returns save_ok parallelism (GetUnloads b) successes \<longrightarrow>
            successes = [] \<and> SetLoads clock successes b = b"
    by (simp add: Save_returns_iff SetLoads_def)
  ultimately show ?thesis
    using inv by (simp add: gc_none_loaded_id GetUnloads_def Save_returns_iff)
qed

theorem nothing_ever_loaded_witness:
  "none_loaded [Key alertA \<mapsto> alertA] \<and>
   none_loaded (fst (sync (Inr []) sweep_clock [Key alertA \<mapsto> alertA])) \<and>
   gc (\<lambda>k. Now 1751499999000000000 5004000000000) 600000000000
      (fst (sync (Inr []) sweep_clock [Key alertA \<mapsto> alertA])) =
   fst (sync (Inr []) sweep_clock [Key alertA \<mapsto> alertA])"
proof -
  have 0: "none_loaded [Key alertA \<mapsto> alertA]"
    by (simp add: none_loaded_def alertA_def)
  have 1: "(system_step (\<lambda>a. True) 4 600000000000)\<^sup>*\<^sup>* [Key alertA \<mapsto> alertA]
      (fst (sync (Inr []) sweep_clock [Key alertA \<mapsto> alertA]))"
    by (rule r_into_rtranclp) (rule system_step.buffer_sync)
  show ?thesis
    using nothing_ever_loaded [OF 0 1, of "\<lambda>i. zeroTime" "\<lambda>k. Now 1751499999000000000 5004000000000"] 0 by simp
qed

section \<open>The reconciliation sweep\<close>

text \<open>
  C6, as stated, fails: the buffer holds the firing record \<open>alertA\<close> and the
  controller reports only \<open>alertA_refired\<close>, which has the same fingerprint and
  another start timestamp, 500 microseconds later. The identity of the stored record is
  not among the reported ones, yet the sweep leaves it firing, because both records
  have the same key.
\<close>

theorem sync_keeps_record_of_absent_identity:
  "Status alertA = Firing \<and>
   Fingerprint alertA_refired = Fingerprint alertA \<and>
   StartsAt alertA_refired \<noteq> StartsAt alertA \<and>
   instant (StartsAt alertA_refired) \<noteq> instant (StartsAt alertA) \<and>
   sync (Inr [alertA_refired]) sweep_clock [Key alertA \<mapsto> alertA] =
     ([Key alertA \<mapsto> alertA], None)"
proof -
  have k: "Key alertA_refired = Key alertA"
    by (simp add: Key_eq_iff UnixMilli_eq alertA_refired_def alertA_def UTC_def int64_def)
  have "(\<lambda>key. case [Key alertA \<mapsto> alertA] key of
                None \<Rightarrow> None
              | Some a \<Rightarrow>
                  if key \<notin> Key ` set [alertA_refired] \<and> Status a = Firing
                  then Some (SetResolved (sweep_clock key) a)
                  else Some a) = [Key alertA \<mapsto> alertA]"
    by (rule ext) (simp add: k)
  then have "sync (Inr [alertA_refired]) sweep_clock [Key alertA \<mapsto> alertA] =
     ([Key alertA \<mapsto> alertA], None)"
    by (simp add: sync_def)
  then show ?thesis
    by (simp add: alertA_refired_def alertA_def UTC_def)
qed

text \<open>
  C6, amended. After a sweep in which the controller answered with the list \<open>firing\<close>,
  a stored record that was firing and whose key is not the key of any reported record is
  resolved: its status is \<open>Resolved\<close>, its end timestamp is the clock reading of the
  sweep and it is no longer marked as written. Every other stored record, whether its key
  was reported or it was not firing, is exactly as before. The sweep adds and removes no
  key, and a sweep whose controller call failed leaves the buffer as it is. The key of a
  record stored under its own key is reported exactly when some reported record has its
  fingerprint and a start timestamp with the same \<open>UnixMilli\<close> value.
\<close>

theorem sync_resolves_missing_firing:
  assumes "b key = Some a"
  shows "snd (sync (Inr firing) clock b) = None \<and>
         fst (sync (Inr firing) clock b) key =
           Some (if key \<notin> Key ` set firing \<and> Status a = Firing
                 then a\<lparr>Loaded := False, Status := Resolved,
                        EndsAt := fst (clock key), LoadedAt := snd (clock key)\<rparr>
                 else a) \<and>
         dom (fst (sync (Inr firing) clock b)) = dom b \<and>
         sync (Inl e) clock b = (b, Some e) \<and>
         (key = Key a \<longrightarrow>
            (key \<in> Key ` set firing) =
              (\<exists>f \<in> set firing. Fingerprint f = Fingerprint a \<and>
                 UnixMilli (StartsAt f) = UnixMilli (StartsAt a)))"
proof -
  have "key = Key a \<longrightarrow>
            (key \<in> Key ` set firing) =
              (\<exists>f \<in> set firing. Fingerprint f = Fingerprint a \<and>
                 UnixMilli (StartsAt f) = UnixMilli (StartsAt a))"
    by (simp add: image_iff Key_eq_iff) metis
  moreover have "snd (sync (Inr firing) clock b) = None \<and>
         fst (sync (Inr firing) clock b) key =
           Some (if key \<notin> Key ` set firing \<and> Status a = Firing
                 then a\<lparr>Loaded := False, Status := Resolved,
                        EndsAt := fst (clock key), LoadedAt := snd (clock key)\<rparr>
                 else a) \<and>
         dom (fst (sync (Inr firing) clock b)) = dom b \<and>
         sync (Inl e) clock b = (b, Some e)"
    using assms
    by (auto simp: sync_def SetResolved_def split: option.splits if_splits)
  ultimately show ?thesis by blast
qed

theorem sync_resolves_missing_firing_witness:
  "fst (sync (Inr [alertA]) sweep_clock [Key alertA \<mapsto> alertA, Key alertB \<mapsto> alertB])
     (Key alertB) =
     Some (alertB\<lparr>Loaded := False, Status := Resolved,
                  EndsAt := Now 1751495100000000000 105000000000,
                  LoadedAt := Now 1751495100000000050 105000000050\<rparr>) \<and>
   fst (sync (Inr [alertA]) sweep_clock [Key alertA \<mapsto> alertA, Key alertB \<mapsto> alertB])
     (Key alertA) = Some alertA"
proof -
  have n: "Key alertA \<noteq> Key alertB"
    by (simp add: Key_def alertA_def alertB_def)
  have a: "[Key alertA \<mapsto> alertA, Key alertB \<mapsto> alertB] (Key alertA) = Some alertA"
    using n by simp
  have b: "[Key alertA \<mapsto> alertA, Key alertB \<mapsto> alertB] (Key alertB) = Some alertB"
    by simp
  have s: "Status alertB = Firing" by (simp add: alertB_def)
  show ?thesis
    using sync_resolves_missing_firing
        [of "[Key alertA \<mapsto> alertA, Key alertB \<mapsto> alertB]" "Key alertA" alertA
            "[alertA]" sweep_clock]
      sync_resolves_missing_firing
        [of "[Key alertA \<mapsto> alertA, Key alertB \<mapsto> alertB]" "Key alertB" alertB
            "[alertA]" sweep_clock]
      a b n s
    by (simp add: sweep_clock_def)
qed

section \<open>The eviction sweep\<close>

lemma Since_saturate: "Since now t = saturate (elapsed now t)"
  by (simp add: Since_def Sub_def elapsed_def split: option.splits)

lemma saturate_boundary: "minDuration \<le> d \<Longrightarrow> \<not> d < saturate d"
  by (simp add: saturate_def)

lemma saturate_plain:
  "minDuration \<le> d \<Longrightarrow> d < maxDuration \<Longrightarrow> (d < saturate e) = (d < e)"
  by (auto simp: saturate_def minDuration_def maxDuration_def)

text \<open>
  C7. The eviction sweep removes a stored record if and only if it is resolved, marked as
  written, and the time elapsed since \<open>LoadedAt\<close> is strictly greater than the maximal
  lifetime; a record that stays is unchanged. For a lifetime inside the range of a
  duration the elapsed time is the plain difference of the clock reading and
  \<open>LoadedAt\<close> (of their monotonic readings when both carry one). A record written
  exactly one lifetime ago stays, a firing record stays at any age, and so does a record
  that is not marked as written.
\<close>

theorem gc_eviction_condition:
  assumes "b key = Some a"
  shows "(gc clock maxLifetime b key = None) =
           (Status a = Resolved \<and> Loaded a \<and> maxLifetime < Since (clock key) (LoadedAt a)) \<and>
         (gc clock maxLifetime b key \<noteq> None \<longrightarrow> gc clock maxLifetime b key = Some a) \<and>
         (minDuration \<le> maxLifetime \<and> maxLifetime < maxDuration \<longrightarrow>
            (maxLifetime < Since (clock key) (LoadedAt a)) =
              (maxLifetime < elapsed (clock key) (LoadedAt a))) \<and>
         (minDuration \<le> maxLifetime \<and> elapsed (clock key) (LoadedAt a) = maxLifetime \<longrightarrow>
            gc clock maxLifetime b key = Some a) \<and>
         (Status a = Firing \<longrightarrow> gc clock maxLifetime b key = Some a) \<and>
         (\<not> Loaded a \<longrightarrow> gc clock maxLifetime b key = Some a)"
proof -
  have g: "gc clock maxLifetime b key = (if IsExpired (clock key) maxLifetime a then None else Some a)"
    using assms by (simp add: gc_def)
  have 1: "(gc clock maxLifetime b key = None) =
           (Status a = Resolved \<and> Loaded a \<and> maxLifetime < Since (clock key) (LoadedAt a))"
    by (simp add: g IsExpired_def)
  have 2: "gc clock maxLifetime b key \<noteq> None \<longrightarrow> gc clock maxLifetime b key = Some a"
    by (simp add: g)
  have 3: "minDuration \<le> maxLifetime \<and> maxLifetime < maxDuration \<longrightarrow>
            (maxLifetime < Since (clock key) (LoadedAt a)) =
              (maxLifetime < elapsed (clock key) (LoadedAt a))"
    by (simp add: Since_saturate saturate_plain)
  have 4: "minDuration \<le> maxLifetime \<and> elapsed (clock key) (LoadedAt a) = maxLifetime \<longrightarrow>
            gc clock maxLifetime b key = Some a"
    using saturate_boundary [of maxLifetime] by (auto simp: g IsExpired_def Since_saturate)
  have 5: "Status a = Firing \<longrightarrow> gc clock maxLifetime b key = Some a"
    using Firing_neq_Resolved by (simp add: g IsExpired_def)
  have 6: "\<not> Loaded a \<longrightarrow> gc clock maxLifetime b key = Some a"
    by (simp add: g IsExpired_def)
  from 1 2 3 4 5 6 show ?thesis by blast
qed

theorem gc_eviction_condition_witness:
  "gc (\<lambda>k. Now 1751495600000000000 605000000000) 600000000000
      [Key alertB_resolved \<mapsto> alertB_resolved] (Key alertB_resolved) = Some alertB_resolved \<and>
   gc (\<lambda>k. Now 1751495600000000001 605000000001) 600000000000
      [Key alertB_resolved \<mapsto> alertB_resolved] (Key alertB_resolved) = None"
proof -
  have a: "[Key alertB_resolved \<mapsto> alertB_resolved] (Key alertB_resolved) = Some alertB_resolved"
    by simp
  have l: "LoadedAt alertB_resolved = Now 1751495000000000000 5000000000" "Loaded alertB_resolved"
    "Status alertB_resolved = Resolved"
    by (simp_all add: alertB_resolved_def alertB_def)
  have e: "elapsed (Now 1751495600000000000 605000000000) (Now 1751495000000000000 5000000000) = 600000000000"
    by (simp add: elapsed_def Now_def)
  have s: "600000000000 < Since (Now 1751495600000000001 605000000001) (Now 1751495000000000000 5000000000)"
    by (simp add: Since_saturate elapsed_def Now_def saturate_def maxDuration_def minDuration_def)
  have m: "minDuration \<le> 600000000000" by (simp add: minDuration_def)
  show ?thesis
    using gc_eviction_condition
        [of "[Key alertB_resolved \<mapsto> alertB_resolved]" "Key alertB_resolved" alertB_resolved
            "\<lambda>k. Now 1751495600000000000 605000000000" 600000000000]
      gc_eviction_condition
        [of "[Key alertB_resolved \<mapsto> alertB_resolved]" "Key alertB_resolved" alertB_resolved
            "\<lambda>k. Now 1751495600000000001 605000000001" 600000000000]
      a l e s m
    by simp
qed

section \<open>Marking records as written\<close>

lemma SetLoads_one_apply:
  "SetLoads_one now a b k =
     (if k = Key a
      then (case b k of
              None \<Rightarrow> None
            | Some s \<Rightarrow> Some (if Equal s a then s\<lparr>Loaded := True, LoadedAt := now\<rparr> else s))
      else b k)"
  by (simp add: SetLoads_one_def split: option.splits)

lemma SetLoads_loop_absent:
  "b k = None \<Longrightarrow> SetLoads_loop clock i alerts b k = None"
proof (induction alerts arbitrary: i b)
  case Nil
  then show ?case by simp
next
  case (Cons a alerts)
  have "SetLoads_one (clock i) a b k = None"
    using Cons.prems by (cases "k = Key a") (simp_all add: SetLoads_one_apply)
  then show ?case by (simp add: Cons.IH)
qed

lemma SetLoads_loop_present:
  assumes "b k = Some s"
  shows "if \<exists>a \<in> set alerts. Key a = k \<and> Equal s a
         then \<exists>j < length alerts.
                SetLoads_loop clock i alerts b k = Some (s\<lparr>Loaded := True, LoadedAt := clock (i + j)\<rparr>)
         else SetLoads_loop clock i alerts b k = Some s"
  using assms
proof (induction alerts arbitrary: i b s)
  case Nil
  then show ?case by simp
next
  case (Cons a alerts)
  define s1 where "s1 = (if k = Key a \<and> Equal s a then s\<lparr>Loaded := True, LoadedAt := clock i\<rparr> else s)"
  define b1 where "b1 = SetLoads_one (clock i) a b"
  have b1: "b1 k = Some s1"
    using Cons.prems by (cases "k = Key a") (auto simp: b1_def s1_def SetLoads_one_apply)
  have eq: "\<And>x. Equal s1 x = Equal s x"
    by (simp add: s1_def)
  note IH = Cons.IH [of b1 s1 "Suc i", unfolded eq]
  show ?case
  proof (cases "\<exists>x \<in> set alerts. Key x = k \<and> Equal s x")
    case True
    with IH b1 obtain j where "j < length alerts"
      and "SetLoads_loop clock (Suc i) alerts b1 k = Some (s1\<lparr>Loaded := True, LoadedAt := clock (Suc i + j)\<rparr>)"
      by auto
    then have "Suc j < length (a # alerts) \<and>
      SetLoads_loop clock i (a # alerts) b k = Some (s\<lparr>Loaded := True, LoadedAt := clock (i + Suc j)\<rparr>)"
      by (simp add: b1_def [symmetric]) (simp add: s1_def)
    with True show ?thesis by (metis list.set_intros(2))
  next
    case False
    with IH b1 have r: "SetLoads_loop clock i (a # alerts) b k = Some s1"
      by (simp add: b1_def)
    show ?thesis
    proof (cases "k = Key a \<and> Equal s a")
      case True
      with r have "0 < length (a # alerts) \<and>
        SetLoads_loop clock i (a # alerts) b k = Some (s\<lparr>Loaded := True, LoadedAt := clock (i + 0)\<rparr>)"
        by (simp add: s1_def)
      with True show ?thesis by (metis list.set_intros(1))
    next
      case False
      with r \<open>\<not> (\<exists>x \<in> set alerts. Key x = k \<and> Equal s x)\<close> show ?thesis
        by (auto simp: s1_def)
    qed
  qed
qed

lemma SetLoads_stale_ignored:
  assumes "b (Key a') = Some s" and "Key s = Key a'" and "\<not> Equal a' s"
  shows "Update_one a' b = Inr (b(Key a' \<mapsto> a')) \<and>
         SetLoads clock [s] (b(Key a' \<mapsto> a')) = b(Key a' \<mapsto> a')"
  using assms by (simp add: Update_one_def SetLoads_def SetLoads_one_def)

text \<open>
  What \<open>SetLoads\<close> does on a batch: the record stored under a key is marked, with a
  clock reading of the call, if and only if some record of the batch has that key and the
  stored record is \<open>Equal\<close> to it; otherwise the entry is exactly as before, and an
  absent key stays absent. When \<open>Update\<close> has just replaced a stored record by a
  differing one, \<open>SetLoads\<close> with the replaced record changes nothing.
\<close>

lemma SetLoads_marks_iff_Equal:
  "(b key = None \<longrightarrow> SetLoads clock alerts b key = None) \<and>
   (\<forall>s. b key = Some s \<longrightarrow>
      (if \<exists>a \<in> set alerts. Key a = key \<and> Equal s a
       then \<exists>j < length alerts.
              SetLoads clock alerts b key = Some (s\<lparr>Loaded := True, LoadedAt := clock j\<rparr>)
       else SetLoads clock alerts b key = Some s)) \<and>
   (\<forall>a' s. b (Key a') = Some s \<and> Key s = Key a' \<and> \<not> Equal a' s \<longrightarrow>
      Update_one a' b = Inr (b(Key a' \<mapsto> a')) \<and>
      SetLoads clock [s] (b(Key a' \<mapsto> a')) = b(Key a' \<mapsto> a'))"
proof -
  have "if \<exists>a \<in> set alerts. Key a = key \<and> Equal s a
       then \<exists>j < length alerts.
              SetLoads clock alerts b key = Some (s\<lparr>Loaded := True, LoadedAt := clock j\<rparr>)
       else SetLoads clock alerts b key = Some s" if "b key = Some s" for s
    using SetLoads_loop_present [of b key s alerts clock 0] that
    by (auto simp: SetLoads_def split: if_splits)
  moreover have "b key = None \<longrightarrow> SetLoads clock alerts b key = None"
    by (simp add: SetLoads_def SetLoads_loop_absent)
  moreover have "\<forall>a' s. b (Key a') = Some s \<and> Key s = Key a' \<and> \<not> Equal a' s \<longrightarrow>
      Update_one a' b = Inr (b(Key a' \<mapsto> a')) \<and>
      SetLoads clock [s] (b(Key a' \<mapsto> a')) = b(Key a' \<mapsto> a')"
    using SetLoads_stale_ignored by blast
  ultimately show ?thesis by blast
qed

text \<open>
  C8. The engine has read the firing record \<open>alertA\<close> and is saving it. Meanwhile the
  record is pushed as resolved and then as firing again with another summary; \<open>Update\<close>
  replaces the stored record both times, and the stored record now differs from the one
  being saved in its annotation. \<open>SetLoads\<close> with the record that was saved then
  marks the stored record as written, because \<open>Equal\<close> does not look at annotation
  values: the pending write of the new summary is suppressed.
\<close>

theorem SetLoads_marks_superseded:
  "Update True [alertA\<lparr>Status := Resolved\<rparr>, alertA_edited] [Key alertA \<mapsto> alertA] =
     ([Key alertA \<mapsto> alertA_edited], None) \<and>
   Annotations alertA_edited \<noteq> Annotations alertA \<and>
   \<not> Loaded alertA_edited \<and>
   SetLoads (\<lambda>i. Now 1751495070000000000 75000000000) [alertA] [Key alertA \<mapsto> alertA_edited] =
     [Key alertA \<mapsto> alertA_edited\<lparr>Loaded := True, LoadedAt := Now 1751495070000000000 75000000000\<rparr>]"
proof -
  have k: "Key (alertA\<lparr>Status := Resolved\<rparr>) = Key alertA" "Key alertA_edited = Key alertA"
    by (simp_all add: Key_def alertA_edited_def)
  have 1: "\<not> Equal (alertA\<lparr>Status := Resolved\<rparr>) alertA"
    by (simp add: Equal_def alertA_def Firing_def Resolved_def)
  have 2: "\<not> Equal alertA_edited (alertA\<lparr>Status := Resolved\<rparr>)"
    by (simp add: Equal_def alertA_edited_def alertA_def Firing_def Resolved_def)
  have 3: "Equal alertA_edited alertA"
    by (simp add: Equal_def alertA_edited_def alertA_def)
  have u1: "Update_one (alertA\<lparr>Status := Resolved\<rparr>) [Key alertA \<mapsto> alertA] =
      Inr [Key alertA \<mapsto> alertA\<lparr>Status := Resolved\<rparr>]"
    using 1 by (simp add: Update_one_def k)
  have u2: "Update_one alertA_edited [Key alertA \<mapsto> alertA\<lparr>Status := Resolved\<rparr>] =
      Inr [Key alertA \<mapsto> alertA_edited]"
    using 2 by (simp add: Update_one_def k)
  have n: "Annotations alertA_edited \<noteq> Annotations alertA"
  proof
    assume "Annotations alertA_edited = Annotations alertA"
    then have "Annotations alertA_edited ''summary'' = Annotations alertA ''summary''"
      by simp
    then show False by (simp add: alertA_edited_def alertA_def)
  qed
  have l: "\<not> Loaded alertA_edited"
    by (simp add: alertA_edited_def alertA_def)
  have m: "SetLoads (\<lambda>i. Now 1751495070000000000 75000000000) [alertA] [Key alertA \<mapsto> alertA_edited] =
     [Key alertA \<mapsto> alertA_edited\<lparr>Loaded := True, LoadedAt := Now 1751495070000000000 75000000000\<rparr>]"
    using 3 by (simp add: SetLoads_def SetLoads_one_def)
  show ?thesis using u1 u2 n l m by (simp add: Update_def)
qed

section \<open>Keys\<close>





end
